theory Spec2Isabelle
  imports Main
begin

section \<open>JavaScript values\<close>

text \<open>
  The values that reach the code untyped: the result of \<open>JSON.parse\<close>, the fields of an
  editorconfig rule set, the parameters of a log call. Numbers are modelled as integers.
  An object is the list of its own enumerable properties, in the order \<open>Object.keys\<close>
  lists them.
\<close>

datatype js =
    JUndefined
  | JNull
  | JBool bool
  | JNum int
  | JStr string
  | JArr "js list"
  | JObj "(string \<times> js) list"

text \<open>
  The property names every plain object inherits from \<open>Object.prototype\<close>: the
  \<open>in\<close> operator answers true for them on any object literal.
\<close>

definition Object_prototype_names :: "string list" where
  "Object_prototype_names =
     [''constructor'', ''__defineGetter__'', ''__defineSetter__'', ''hasOwnProperty'',
      ''__lookupGetter__'', ''__lookupSetter__'', ''isPrototypeOf'',
      ''propertyIsEnumerable'', ''toString'', ''valueOf'', ''__proto__'',
      ''toLocaleString'']"

section \<open>Log levels\<close>

text \<open>
  Modelled from the spec: the enumeration \<open>LogLevel\<close> of \<open>../common/logger\<close>, which
  is not among the source files. The spec names its six members and their order
  (TRACE below DEBUG below INFO below WARN below ERROR below FATAL).
\<close>

datatype LogLevel = FATAL | ERROR | WARN | INFO | DEBUG | TRACE

text \<open>
  Modelled from the spec: the numbers of the members of \<open>LogLevel\<close>, as a \<open>number\<close>
  parameter carries them. They keep the order the spec gives and are the backend's
  severities of the same names: \<open>makeLoggerOptions\<close> hands \<open>cli.defaultLogLevel\<close> to
  the backend unconverted.
\<close>

fun LogLevel_num :: "LogLevel \<Rightarrow> int" where
  "LogLevel_num FATAL = 60"
| "LogLevel_num ERROR = 50"
| "LogLevel_num WARN = 40"
| "LogLevel_num INFO = 30"
| "LogLevel_num DEBUG = 20"
| "LogLevel_num TRACE = 10"

text \<open>The severities of the bunyan library, as its documentation gives them.\<close>

definition bunyan_TRACE :: int where "bunyan_TRACE = 10"
definition bunyan_DEBUG :: int where "bunyan_DEBUG = 20"
definition bunyan_INFO :: int where "bunyan_INFO = 30"
definition bunyan_WARN :: int where "bunyan_WARN = 40"
definition bunyan_ERROR :: int where "bunyan_ERROR = 50"
definition bunyan_FATAL :: int where "bunyan_FATAL = 60"

text \<open>\<open>BunyanLoggerServer.toBunyanLevel\<close>: a switch over a number, INFO by default.\<close>

definition toBunyanLevel :: "int \<Rightarrow> int" where
  "toBunyanLevel logLevel =
     (if logLevel = LogLevel_num FATAL then bunyan_FATAL
      else if logLevel = LogLevel_num ERROR then bunyan_ERROR
      else if logLevel = LogLevel_num WARN then bunyan_WARN
      else if logLevel = LogLevel_num INFO then bunyan_INFO
      else if logLevel = LogLevel_num DEBUG then bunyan_DEBUG
      else if logLevel = LogLevel_num TRACE then bunyan_TRACE
      else bunyan_INFO)"

text \<open>\<open>BunyanLoggerServer.toLogLevel\<close>: the switch back, INFO by default.\<close>

definition toLogLevel :: "int \<Rightarrow> int" where
  "toLogLevel bunyanLogLevel =
     (if bunyanLogLevel = bunyan_FATAL then LogLevel_num FATAL
      else if bunyanLogLevel = bunyan_ERROR then LogLevel_num ERROR
      else if bunyanLogLevel = bunyan_WARN then LogLevel_num WARN
      else if bunyanLogLevel = bunyan_INFO then LogLevel_num INFO
      else if bunyanLogLevel = bunyan_DEBUG then LogLevel_num DEBUG
      else if bunyanLogLevel = bunyan_TRACE then LogLevel_num TRACE
      else LogLevel_num INFO)"

section \<open>The command line contribution\<close>

text \<open>
  \<open>logLevels\<close> is an object literal used as a dictionary: its own properties are a
  map from logger names to levels.
\<close>

record LogLevelCliContribution =
  logLevels :: "string \<rightharpoonup> LogLevel"
  defaultLogLevel :: LogLevel

text \<open>The field initialisers of the class.\<close>

definition new_LogLevelCliContribution :: LogLevelCliContribution where
  "new_LogLevelCliContribution = \<lparr>logLevels = Map.empty, defaultLogLevel = INFO\<rparr>"

text \<open>The two options of \<open>configure\<close>, each absent or given once.\<close>

record Arguments =
  log_level :: "string option"
  log_levels_file :: "string option"

text \<open>
  The messages of the errors \<open>setArguments\<close> raises, by their templates.
  \<open>Thrown\<close> carries the message of an exception of \<open>fs.readFileSync\<close> or
  \<open>JSON.parse\<close>; \<open>TypeError_thrown\<close> is the engine's own, for \<open>in\<close> or
  \<open>Object.keys\<close> on a value that admits neither.
\<close>

datatype message =
    Mutually_exclusive
  | Unknown_level string js
  | Error_reading_file string message
  | Thrown string
  | TypeError_thrown

text \<open>The local function \<open>readLogLevelString\<close>; \<open>fromString\<close> is
  \<open>LogLevel.fromString\<close>, which is not among the source files and is a parameter.\<close>

definition readLogLevelString ::
  "(js \<Rightarrow> LogLevel option) \<Rightarrow> js \<Rightarrow> string \<Rightarrow> message + LogLevel" where
  "readLogLevelString fromString levelStr errMessagePrefix =
     (case fromString levelStr of
        None \<Rightarrow> Inl (Unknown_level errMessagePrefix levelStr)
      | Some level \<Rightarrow> Inr level)"

text \<open>
  \<open>key in data\<close> for the two keys the code asks for, \<open>default\<close> and \<open>loggers\<close>:
  neither is an array index or an inherited property name, so the answer is about own
  properties; on a primitive the operator raises.
\<close>

fun js_in :: "string \<Rightarrow> js \<Rightarrow> message + bool" where
  "js_in key (JObj kvs) = Inr (key \<in> fst ` set kvs)"
| "js_in key (JArr xs) = Inr False"
| "js_in key _ = Inl TypeError_thrown"

fun js_get :: "js \<Rightarrow> string \<Rightarrow> js" where
  "js_get (JObj kvs) key = (case map_of kvs key of None \<Rightarrow> JUndefined | Some v \<Rightarrow> v)"
| "js_get _ key = JUndefined"

text \<open>Decimal digits of an array index, as \<open>Object.keys\<close> names it.\<close>

fun show_nat :: "nat \<Rightarrow> string" where
  "show_nat n =
     (if n < 10 then [char_of (48 + n)]
      else show_nat (n div 10) @ [char_of (48 + n mod 10)])"

declare show_nat.simps [simp del]

text \<open>
  The pairs the loop \<open>for (const logger of Object.keys(loggers))\<close> visits, each key
  with \<open>loggers[logger]\<close>: the own properties of an object, the indexed elements of an
  array or of a string, nothing for a number or a boolean; \<open>Object.keys\<close> raises on
  \<open>null\<close> and \<open>undefined\<close>.
\<close>

fun Object_entries :: "js \<Rightarrow> message + (string \<times> js) list" where
  "Object_entries (JObj kvs) = Inr kvs"
| "Object_entries (JArr xs) = Inr (zip (map show_nat [0..<length xs]) xs)"
| "Object_entries (JStr s) = Inr (zip (map show_nat [0..<length s]) (map (\<lambda>c. JStr [c]) s))"
| "Object_entries (JNum n) = Inr []"
| "Object_entries (JBool b) = Inr []"
| "Object_entries JNull = Inl TypeError_thrown"
| "Object_entries JUndefined = Inl TypeError_thrown"

text \<open>
  \<open>this.logLevels[logger] = level\<close>: an own property is written, except under the key
  \<open>__proto__\<close>, whose inherited setter ignores a number.
\<close>

definition logLevels_set ::
  "(string \<rightharpoonup> LogLevel) \<Rightarrow> string \<Rightarrow> LogLevel \<Rightarrow> (string \<rightharpoonup> LogLevel)" where
  "logLevels_set m logger level = (if logger = ''__proto__'' then m else m(logger \<mapsto> level))"

text \<open>The body of the loop over the loggers of the file, stopping at the first throw.\<close>

fun read_loggers ::
  "(js \<Rightarrow> LogLevel option) \<Rightarrow> string \<Rightarrow> (string \<times> js) list \<Rightarrow> LogLevelCliContribution
     \<Rightarrow> message + LogLevelCliContribution" where
  "read_loggers fromString filename [] this = Inr this"
| "read_loggers fromString filename ((logger, levelStr) # rest) this =
     (case readLogLevelString fromString levelStr
             (''Unknown log level for logger '' @ logger @ '' in '' @ filename) of
        Inl e \<Rightarrow> Inl e
      | Inr level \<Rightarrow>
          read_loggers fromString filename rest
            (this\<lparr>logLevels := logLevels_set (logLevels this) logger level\<rparr>))"

text \<open>
  The body of the \<open>try\<close> block. \<open>readFileSync\<close> and \<open>JSON_parse\<close> are the two
  library calls: each gives a value or the message of the exception it raises.
\<close>

definition read_levels_file ::
  "(js \<Rightarrow> LogLevel option) \<Rightarrow> (string \<Rightarrow> string + string) \<Rightarrow> (string \<Rightarrow> string + js)
     \<Rightarrow> string \<Rightarrow> LogLevelCliContribution \<Rightarrow> message + LogLevelCliContribution" where
  "read_levels_file fromString readFileSync JSON_parse filename this =
     (case readFileSync filename of
        Inl m \<Rightarrow> Inl (Thrown m)
      | Inr content \<Rightarrow>
     (case JSON_parse content of
        Inl m \<Rightarrow> Inl (Thrown m)
      | Inr data \<Rightarrow>
     (case js_in ''default'' data of
        Inl e \<Rightarrow> Inl e
      | Inr has_default \<Rightarrow>
     (case (if has_default
            then (case readLogLevelString fromString (js_get data ''default'')
                         (''Unknown default log level in '' @ filename) of
                    Inl e \<Rightarrow> Inl e
                  | Inr level \<Rightarrow> Inr (this\<lparr>defaultLogLevel := level\<rparr>))
            else Inr this) of
        Inl e \<Rightarrow> Inl e
      | Inr this1 \<Rightarrow>
     (case js_in ''loggers'' data of
        Inl e \<Rightarrow> Inl e
      | Inr has_loggers \<Rightarrow>
          if has_loggers
          then (case Object_entries (js_get data ''loggers'') of
                  Inl e \<Rightarrow> Inl e
                | Inr entries \<Rightarrow> read_loggers fromString filename entries this1)
          else Inr this1)))))"

text \<open>\<open>LogLevelCliContribution.setArguments\<close>: the new contribution, or the message
  of the error thrown.\<close>

definition setArguments ::
  "(js \<Rightarrow> LogLevel option) \<Rightarrow> (string \<Rightarrow> string + string) \<Rightarrow> (string \<Rightarrow> string + js)
     \<Rightarrow> Arguments \<Rightarrow> LogLevelCliContribution \<Rightarrow> message + LogLevelCliContribution" where
  "setArguments fromString readFileSync JSON_parse args this =
     (if log_level args \<noteq> None \<and> log_levels_file args \<noteq> None
      then Inl Mutually_exclusive
      else
        (case (case log_level args of
                 None \<Rightarrow> Inr this
               | Some levelStr \<Rightarrow>
                   (case readLogLevelString fromString (JStr levelStr)
                           ''Unknown log level passed to --log-level'' of
                      Inl e \<Rightarrow> Inl e
                    | Inr level \<Rightarrow> Inr (this\<lparr>defaultLogLevel := level\<rparr>))) of
           Inl e \<Rightarrow> Inl e
         | Inr this1 \<Rightarrow>
             (case log_levels_file args of
                None \<Rightarrow> Inr this1
              | Some filename \<Rightarrow>
                  (case read_levels_file fromString readFileSync JSON_parse filename this1 of
                     Inl e \<Rightarrow> Inl (Error_reading_file filename e)
                   | Inr this2 \<Rightarrow> Inr this2))))"

section \<open>The logger server\<close>

text \<open>
  A logger of the backend, as far as the server reads and writes it: the \<open>name\<close> and
  \<open>logger\<close> fields it was created with, and its level, which \<open>level()\<close> reads and
  \<open>level(n)\<close> writes.
\<close>

record bunyan =
  bname :: string
  blogger :: string
  blevel :: int

record LoggerOptions =
  opt_logger :: string
  opt_level :: int

record ILogLevelChangedEvent =
  loggerName :: string
  oldLogLevel :: int
  newLogLevel :: int

datatype bunyan_method = Trace | Debug | Info | Warn | Error | Fatal

text \<open>
  What an operation does outside the server, in the order it does it: a notification
  to the client (named by a number), an event fired on the local watcher, a call of a
  logging method of a logger with the message and the parameters.
\<close>

datatype effect =
    Client_onLogLevelChanged nat ILogLevelChangedEvent
  | Watcher_fireLogLevelChanged ILogLevelChangedEvent
  | Logger_call bunyan bunyan_method string "js list"

text \<open>
  How an operation ends: with a resolved promise, with a rejected promise, or with an
  error thrown before any promise is made.
\<close>

datatype failure = Empty_name | No_root_logger | No_logger_named string

datatype 'a outcome = Resolve 'a | Reject failure | Throw failure

record BunyanLoggerServer =
  loggers :: "string \<rightharpoonup> bunyan"
  client :: "nat option"
  cli :: LogLevelCliContribution

text \<open>
  \<open>name in this.cli.logLevels\<close>: true for an own property and for every name the
  object inherits.
\<close>

definition in_logLevels :: "string \<Rightarrow> (string \<rightharpoonup> LogLevel) \<Rightarrow> bool" where
  "in_logLevels name m \<longleftrightarrow> m name \<noteq> None \<or> name \<in> set Object_prototype_names"

text \<open>
  \<open>makeLoggerOptions\<close>. Under an inherited name \<open>logLevels[name]\<close> is a function or
  an object, which equals no case label of \<open>toBunyanLevel\<close>: the switch takes its
  default.
\<close>

definition makeLoggerOptions :: "LogLevelCliContribution \<Rightarrow> string \<Rightarrow> LoggerOptions" where
  "makeLoggerOptions c name =
     (let opts = \<lparr>opt_logger = name, opt_level = LogLevel_num (defaultLogLevel c)\<rparr>
      in if in_logLevels name (logLevels c)
         then opts\<lparr>opt_level :=
                (case logLevels c name of
                   Some level \<Rightarrow> toBunyanLevel (LogLevel_num level)
                 | None \<Rightarrow> bunyan_INFO)\<rparr>
         else opts)"

text \<open>\<open>bunyan.createLogger\<close> and \<open>child\<close> of the library, on the options the server
  passes: a child keeps its parent's name and takes the level of the options.\<close>

definition createLogger :: "string \<Rightarrow> LoggerOptions \<Rightarrow> bunyan" where
  "createLogger name opts = \<lparr>bname = name, blogger = opt_logger opts, blevel = opt_level opts\<rparr>"

definition bunyan_child :: "bunyan \<Rightarrow> LoggerOptions \<Rightarrow> bunyan" where
  "bunyan_child parent opts =
     \<lparr>bname = bname parent, blogger = opt_logger opts, blevel = opt_level opts\<rparr>"

text \<open>
  The server as constructed and then \<open>init\<close>. \<open>rootLoggerName\<close> is a constant of
  \<open>../common/logger\<close>, not among the source files, and is a parameter.
\<close>

definition init :: "string \<Rightarrow> LogLevelCliContribution \<Rightarrow> BunyanLoggerServer" where
  "init rootLoggerName c =
     \<lparr>loggers = [rootLoggerName \<mapsto> createLogger ''Theia'' (makeLoggerOptions c rootLoggerName)],
      client = None,
      cli = c\<rparr>"

definition child ::
  "string \<Rightarrow> BunyanLoggerServer \<Rightarrow> string \<Rightarrow> unit outcome \<times> BunyanLoggerServer \<times> effect list"
  where
  "child rootLoggerName this name =
     (if length name = 0 then (Reject Empty_name, this, [])
      else if loggers this name \<noteq> None then (Resolve (), this, [])
      else
        (case loggers this rootLoggerName of
           None \<Rightarrow> (Throw No_root_logger, this, [])
         | Some rootLogger \<Rightarrow>
             (let opts = makeLoggerOptions (cli this) name;
                  logger = bunyan_child rootLogger opts
              in (Resolve (), this\<lparr>loggers := (loggers this)(name \<mapsto> logger)\<rparr>, []))))"

definition setClient :: "BunyanLoggerServer \<Rightarrow> nat option \<Rightarrow> BunyanLoggerServer" where
  "setClient this c = this\<lparr>client := c\<rparr>"

definition setLogLevel ::
  "BunyanLoggerServer \<Rightarrow> string \<Rightarrow> int \<Rightarrow> unit outcome \<times> BunyanLoggerServer \<times> effect list"
  where
  "setLogLevel this name logLevel =
     (case loggers this name of
        None \<Rightarrow> (Throw (No_logger_named name), this, [])
      | Some logger \<Rightarrow>
          (let old = toLogLevel (blevel logger)
           in if old = logLevel then (Resolve (), this, [])
              else
                (let logger' = logger\<lparr>blevel := toBunyanLevel logLevel\<rparr>;
                     changedEvent =
                       \<lparr>loggerName = name, oldLogLevel = old, newLogLevel = logLevel\<rparr>
                 in (Resolve (),
                     this\<lparr>loggers := (loggers this)(name \<mapsto> logger')\<rparr>,
                     (case client this of
                        None \<Rightarrow> []
                      | Some c \<Rightarrow> [Client_onLogLevelChanged c changedEvent])
                     @ [Watcher_fireLogLevelChanged changedEvent]))))"

definition getLogLevel ::
  "BunyanLoggerServer \<Rightarrow> string \<Rightarrow> int outcome \<times> BunyanLoggerServer \<times> effect list" where
  "getLogLevel this name =
     (case loggers this name of
        None \<Rightarrow> (Throw (No_logger_named name), this, [])
      | Some logger \<Rightarrow> (Resolve (toLogLevel (blevel logger)), this, []))"

definition log ::
  "BunyanLoggerServer \<Rightarrow> string \<Rightarrow> int \<Rightarrow> string \<Rightarrow> js list
     \<Rightarrow> unit outcome \<times> BunyanLoggerServer \<times> effect list" where
  "log this name logLevel msg params =
     (case loggers this name of
        None \<Rightarrow> (Throw (No_logger_named name), this, [])
      | Some logger \<Rightarrow>
          (Resolve (), this,
           [Logger_call logger
              (if logLevel = LogLevel_num TRACE then Trace
               else if logLevel = LogLevel_num DEBUG then Debug
               else if logLevel = LogLevel_num INFO then Info
               else if logLevel = LogLevel_num WARN then Warn
               else if logLevel = LogLevel_num ERROR then Error
               else if logLevel = LogLevel_num FATAL then Fatal
               else Info)
              msg params]))"

section \<open>The editorconfig document watcher\<close>

text \<open>
  The text of a document is a sequence of UTF-16 code units, as a JavaScript string is:
  \<open>length\<close> counts what \<open>lineContent.length\<close> counts.
\<close>

type_synonym jsstring = "nat list"

definition LINE_ENDING_LF :: jsstring where "LINE_ENDING_LF = [10]"
definition LINE_ENDING_CRLF :: jsstring where "LINE_ENDING_CRLF = [13, 10]"

text \<open>The white space and line terminators that \<open>String.prototype.trimRight\<close> strips.\<close>

definition is_white_space :: "nat \<Rightarrow> bool" where
  "is_white_space c \<longleftrightarrow>
     c \<in> {9, 10, 11, 12, 13, 32, 160, 5760, 8232, 8233, 8239, 8287, 12288, 65279}
     \<or> (8192 \<le> c \<and> c \<le> 8202)"

definition trimRight :: "jsstring \<Rightarrow> jsstring" where
  "trimRight s = rev (dropWhile is_white_space (rev s))"

text \<open>
  The rule set of a file: the six properties the watcher reads, each a value of the
  parsed configuration, \<open>JUndefined\<close> when the file has no such rule.
\<close>

record KnownProps =
  indent_style :: js
  indent_size :: js
  tab_width :: js
  end_of_line :: js
  trim_trailing_whitespace :: js
  insert_final_newline :: js

text \<open>
  A Monaco editor as the watcher reads it: its identity, the path of its resource, the
  lines of its document (a text model has at least one line) and the cursor.
\<close>

record MonacoEditor =
  editor_id :: nat
  uri_path :: string
  first_line :: jsstring
  more_lines :: "jsstring list"
  cursor :: "nat \<times> nat"

definition lineCount :: "MonacoEditor \<Rightarrow> nat" where
  "lineCount editor = Suc (length (more_lines editor))"

text \<open>\<open>getLineContent\<close>, for a line number from 1 to \<open>lineCount\<close>.\<close>

definition getLineContent :: "MonacoEditor \<Rightarrow> nat \<Rightarrow> jsstring" where
  "getLineContent editor lineNumber = (first_line editor # more_lines editor) ! (lineNumber - 1)"

datatype EndOfLineSequence = EOL_LF | EOL_CRLF

record IIdentifiedSingleEditOperation =
  forceMoveMarkers :: bool
  edit_range :: "nat \<times> nat \<times> nat \<times> nat"
  edit_text :: jsstring

text \<open>
  The calls by which the watcher changes an editor, in the order it makes them:
  \<open>updateOptions\<close> with \<open>insertSpaces\<close> or with \<open>tabSize\<close>, \<open>setEOL\<close>,
  \<open>executeCommand\<close>, \<open>applyEdits\<close>, and the assignment to \<open>editor.cursor\<close>.
\<close>

datatype mutation =
    UpdateOptions_insertSpaces bool
  | UpdateOptions_tabSize int
  | SetEOL EndOfLineSequence
  | ExecuteCommand string
  | ApplyEdits "IIdentifiedSingleEditOperation list"
  | Assign_cursor "nat \<times> nat"

text \<open>
  The watcher: the editor of the editor manager's current widget, if any, and the rule
  sets it has cached by path.
\<close>

record DocumentWatcher =
  currentEditor :: "nat option"
  configurations :: "string \<rightharpoonup> KnownProps"

text \<open>What \<open>!property\<close> negates.\<close>

fun truthy :: "js \<Rightarrow> bool" where
  "truthy JUndefined = False"
| "truthy JNull = False"
| "truthy (JBool b) = b"
| "truthy (JNum n) = (n \<noteq> 0)"
| "truthy (JStr s) = (s \<noteq> [])"
| "truthy (JArr xs) = True"
| "truthy (JObj kvs) = True"

definition isSet :: "js \<Rightarrow> bool" where
  "isSet property = (if \<not> truthy property \<or> JStr ''unset'' = property then False else True)"

definition ensureIndentStyle :: "KnownProps \<Rightarrow> mutation list" where
  "ensureIndentStyle properties =
     (if JStr ''space'' = indent_style properties then [UpdateOptions_insertSpaces True]
      else if JStr ''tab'' = indent_style properties then [UpdateOptions_insertSpaces False]
      else [])"

definition ensureTabWidth :: "KnownProps \<Rightarrow> mutation list" where
  "ensureTabWidth properties =
     (case tab_width properties of
        JNum tabWidth \<Rightarrow> [UpdateOptions_tabSize tabWidth]
      | _ \<Rightarrow> [])"

definition ensureIndentSize :: "KnownProps \<Rightarrow> mutation list" where
  "ensureIndentSize properties =
     (if JStr ''tab'' = indent_size properties
      then (if isSet (tab_width properties) then ensureTabWidth properties else [])
      else (case indent_size properties of
              JNum indentSize \<Rightarrow> [UpdateOptions_tabSize indentSize]
            | _ \<Rightarrow> []))"

definition ensureEndOfLine :: "KnownProps \<Rightarrow> mutation list" where
  "ensureEndOfLine properties =
     (if JStr ''lf'' = end_of_line properties then [SetEOL EOL_LF]
      else if JStr ''crlf'' = end_of_line properties then [SetEOL EOL_CRLF]
      else [])"

text \<open>
  \<open>executeCommand\<close> of the command service is not among the source files and is a
  parameter: it gives the editor as the call leaves it, which is the editor unchanged
  when the command only acts later. The call itself is recorded as \<open>ExecuteCommand\<close>.
  What is read from the editor after the call is read from the editor it gives.
\<close>

definition ensureTrimTrailingWhitespace ::
  "(string \<Rightarrow> MonacoEditor \<Rightarrow> MonacoEditor) \<Rightarrow> DocumentWatcher \<Rightarrow> MonacoEditor \<Rightarrow> KnownProps
     \<Rightarrow> mutation list \<times> MonacoEditor" where
  "ensureTrimTrailingWhitespace executeCommand this editor properties =
     (if JBool True = trim_trailing_whitespace properties
      then (if currentEditor this = Some (editor_id editor)
            then ([ExecuteCommand ''monaco.editor.action.trimTrailingWhitespace''],
                  executeCommand ''monaco.editor.action.trimTrailingWhitespace'' editor)
            else ([], editor))
      else ([], editor))"

definition ensureEndsWithNewLine :: "MonacoEditor \<Rightarrow> KnownProps \<Rightarrow> mutation list" where
  "ensureEndsWithNewLine editor properties =
     (if JBool True = insert_final_newline properties
      then
        (let lines = lineCount editor;
             lineContent0 = getLineContent editor lines;
             lineContent =
               (if JBool True = trim_trailing_whitespace properties
                then trimRight lineContent0 else lineContent0);
             lineEnding =
               (if JStr ''crlf'' = end_of_line properties
                then LINE_ENDING_CRLF else LINE_ENDING_LF)
         in if [] \<noteq> lineContent
            then [ApplyEdits
                    [\<lparr>forceMoveMarkers = False,
                      edit_range = (lines, length lineContent + 1, lines, length lineContent + 1),
                      edit_text = lineEnding\<rparr>],
                  Assign_cursor (cursor editor)]
            else [])
      else [])"


text \<open>
  The handler \<open>addOnSaveHandler\<close> registers with \<open>onWillSaveModel\<close>. The rule set is
  the one cached under the path of the editor. \<open>configurations\<close> is an object literal:
  with nothing cached, under a path that is a property name every object inherits the
  value read is the inherited member, whose rule properties are all \<open>undefined\<close>, and
  the handler makes no call; under any other path the value is \<open>undefined\<close>, and
  reading a property of it raises.
\<close>

definition onWillSaveModel ::
  "(string \<Rightarrow> MonacoEditor \<Rightarrow> MonacoEditor) \<Rightarrow> DocumentWatcher \<Rightarrow> MonacoEditor
     \<Rightarrow> message + mutation list" where
  "onWillSaveModel executeCommand this monacoEditor =
     (case configurations this (uri_path monacoEditor) of
        None \<Rightarrow>
          (if uri_path monacoEditor \<in> set Object_prototype_names then Inr []
           else Inl TypeError_thrown)
      | Some properties \<Rightarrow>
          (let trimmed =
                 (if isSet (trim_trailing_whitespace properties)
                  then ensureTrimTrailingWhitespace executeCommand this monacoEditor properties
                  else ([], monacoEditor))
           in Inr (fst trimmed
                   @ (if isSet (insert_final_newline properties)
                      then ensureEndsWithNewLine (snd trimmed) properties else []))))"

section \<open>The quick file open service\<close>

text \<open>
  One call of \<open>fileSearchService.find\<close>: the query and the options \<open>onType\<close> passes.
\<close>

record find_request =
  lookFor :: string
  rootUri :: string
  fuzzyMatch :: bool
  limit :: nat
  useGitIgnore :: bool

text \<open>
  Modelled from the spec: \<open>CancellationTokenSource\<close> of \<open>@theia/core\<close>, which is not
  among the source files, is a handle that invalidates a request in flight: every
  \<open>new\<close> makes a source of its own, and after \<open>cancel()\<close> the token of the source
  answers \<open>isCancellationRequested\<close>. A source is named by a number, \<open>next_source\<close>
  being the one the next \<open>new\<close> makes, and \<open>cancelled\<close> holds the sources that have
  been cancelled.

  The service and what is in flight around it: \<open>finds\<close> are the searches that have
  not resolved, each under the token of its session; \<open>awaiting\<close> are the handlers
  suspended at \<open>await Promise.all(itemPromises)\<close>, each with the addresses it
  proposed; \<open>accepted\<close> are the calls of the acceptor so far, each with the session's
  token and the addresses of the items passed. \<open>root_pending\<close> holds until the promise
  of the workspace root, which the constructor waits for, has resolved.
\<close>

record QuickFileOpenService =
  wsRoot :: "string option"
  root_pending :: bool
  showIgnoredFiles :: bool
  cancelIndicator :: nat
  next_source :: nat
  cancelled :: "nat set"
  finds :: "(nat \<times> find_request) list"
  awaiting :: "(nat \<times> string list) list"
  accepted :: "(nat \<times> string list) list"

definition new_QuickFileOpenService :: QuickFileOpenService where
  "new_QuickFileOpenService =
     \<lparr>wsRoot = None, root_pending = True, showIgnoredFiles = True,
      cancelIndicator = 0, next_source = 1, cancelled = {},
      finds = [], awaiting = [], accepted = []\<rparr>"

text \<open>
  What the event loop runs: the workspace root resolves (once), the user types, a
  search resolves with its batch of paths, the items of a suspended handler resolve.
\<close>

datatype event =
    Root_resolves "string option"
  | OnType string
  | Find_resolves nat "string list"
  | Items_resolve nat

definition onType :: "string \<Rightarrow> QuickFileOpenService \<Rightarrow> QuickFileOpenService" where
  "onType query this =
     (case wsRoot this of
        None \<Rightarrow> this
      | Some root \<Rightarrow>
          (let token = next_source this
           in this\<lparr>cancelled := insert (cancelIndicator this) (cancelled this),
                   cancelIndicator := token,
                   next_source := Suc token,
                   finds := finds this @
                     [(token, \<lparr>lookFor = query, rootUri = root, fuzzyMatch = True,
                               limit = 200, useGitIgnore = showIgnoredFiles this\<rparr>)]\<rparr>))"

text \<open>\<open>proposed.add(uri)\<close> for each path of the batch: a set in insertion order.\<close>

fun propose :: "string list \<Rightarrow> string list \<Rightarrow> string list" where
  "propose proposed [] = proposed"
| "propose proposed (uri # uris) =
     propose (if uri \<in> set proposed then proposed else proposed @ [uri]) uris"

text \<open>
  The handler, up to its \<open>await\<close>. \<open>withPath\<close> stands for
  \<open>root.withPath(root.path.join(p)).toString()\<close> of the URI library.
\<close>

definition handler ::
  "(string \<Rightarrow> string \<Rightarrow> string) \<Rightarrow> nat \<Rightarrow> find_request \<Rightarrow> string list
     \<Rightarrow> QuickFileOpenService \<Rightarrow> QuickFileOpenService" where
  "handler withPath token request result this =
     (if token \<notin> cancelled this
      then this\<lparr>awaiting := awaiting this @
                  [(token, propose [] (map (withPath (rootUri request)) result))]\<rparr>
      else this)"

text \<open>
  One turn of the event loop. A search resolves once and runs the handler of its
  session; the items of a suspended handler resolve once and the handler calls the
  acceptor. An event for a search or a handler that is not pending changes nothing.
\<close>

definition step ::
  "(string \<Rightarrow> string \<Rightarrow> string) \<Rightarrow> event \<Rightarrow> QuickFileOpenService \<Rightarrow> QuickFileOpenService"
  where
  "step withPath e this =
     (case e of
        Root_resolves root \<Rightarrow>
          (if root_pending this then this\<lparr>wsRoot := root, root_pending := False\<rparr> else this)
      | OnType query \<Rightarrow> onType query this
      | Find_resolves token result \<Rightarrow>
          (case map_of (finds this) token of
             None \<Rightarrow> this
           | Some request \<Rightarrow>
               handler withPath token request result
                 (this\<lparr>finds := filter (\<lambda>f. fst f \<noteq> token) (finds this)\<rparr>))
      | Items_resolve token \<Rightarrow>
          (case map_of (awaiting this) token of
             None \<Rightarrow> this
           | Some uris \<Rightarrow>
               this\<lparr>awaiting := filter (\<lambda>a. fst a \<noteq> token) (awaiting this),
                    accepted := accepted this @ [(token, uris)]\<rparr>))"

definition run ::
  "(string \<Rightarrow> string \<Rightarrow> string) \<Rightarrow> event list \<Rightarrow> QuickFileOpenService \<Rightarrow> QuickFileOpenService"
  where
  "run withPath es this = fold (step withPath) es this"

section \<open>Example states\<close>

text \<open>
  The contribution after reading the mapping file of the repository's test
  (\<open>default: info\<close>, \<open>hello: debug\<close>, \<open>world: fatal\<close>), and a server initialised
  from it with a client registered.
\<close>

definition example_cli :: LogLevelCliContribution where
  "example_cli =
     \<lparr>logLevels = [''hello'' \<mapsto> DEBUG, ''world'' \<mapsto> FATAL], defaultLogLevel = INFO\<rparr>"

definition example_server :: BunyanLoggerServer where
  "example_server = setClient (init ''root'' example_cli) (Some 7)"

text \<open>
  The same server after the logger \<open>hello\<close> (configured at DEBUG) has been created
  and then moved to ERROR by \<open>setLogLevel\<close>.
\<close>

definition example_server_hello :: BunyanLoggerServer where
  "example_server_hello =
     fst (snd (setLogLevel (fst (snd (child ''root'' example_server ''hello''))) ''hello''
                 (LogLevel_num ERROR)))"

text \<open>
  A server whose startup mapping has a key that is also a name every object inherits.
\<close>

definition example_server_constructor :: BunyanLoggerServer where
  "example_server_constructor =
     init ''root'' \<lparr>logLevels = [''constructor'' \<mapsto> FATAL], defaultLogLevel = INFO\<rparr>"

text \<open>
  A \<open>fromString\<close> that knows the six levels by their lower-case names (the test of
  the repository uses \<open>debug\<close>, \<open>info\<close> and \<open>fatal\<close>, and \<open>potato\<close> as a
  string that names none), and a file system with one well-formed mapping file and one
  that is not JSON.
\<close>

definition example_fromString :: "js \<Rightarrow> LogLevel option" where
  "example_fromString levelStr =
     map_of [(JStr ''fatal'', FATAL), (JStr ''error'', ERROR), (JStr ''warn'', WARN),
             (JStr ''info'', INFO), (JStr ''debug'', DEBUG), (JStr ''trace'', TRACE)] levelStr"

definition example_readFileSync :: "string \<Rightarrow> string + string" where
  "example_readFileSync filename =
     (if filename = ''/tmp/levels.json'' then Inr ''levels''
      else if filename = ''/tmp/broken.json'' then Inr ''{levels''
      else Inl ''ENOENT: no such file or directory'')"

definition example_JSON_parse :: "string \<Rightarrow> string + js" where
  "example_JSON_parse content =
     (if content = ''levels''
      then Inr (JObj [(''default'', JStr ''info''),
                      (''loggers'', JObj [(''hello'', JStr ''debug''), (''world'', JStr ''fatal'')])])
      else Inl ''Unexpected token { in JSON at position 1'')"

text \<open>
  The rule set of the repository's test, an editor on a document of three lines whose
  last line ends in a space and a tab, and a watcher for which that editor is the
  current one.
\<close>

definition example_props :: KnownProps where
  "example_props =
     \<lparr>indent_style = JStr ''space'', indent_size = JNum 4, tab_width = JNum 4,
      end_of_line = JStr ''crlf'', trim_trailing_whitespace = JBool True,
      insert_final_newline = JBool True\<rparr>"

definition example_editor :: MonacoEditor where
  "example_editor =
     \<lparr>editor_id = 1, uri_path = ''/ws/a.ts'', first_line = [97, 59],
      more_lines = [[], [125, 32, 9]], cursor = (1, 2)\<rparr>"

definition example_watcher :: DocumentWatcher where
  "example_watcher =
     \<lparr>currentEditor = Some 1, configurations = [''/ws/a.ts'' \<mapsto> example_props]\<rparr>"

text \<open>
  The same watcher when another editor is the current one, and a command service whose
  commands act only after the call has returned.
\<close>

definition example_watcher_background :: DocumentWatcher where
  "example_watcher_background = example_watcher\<lparr>currentEditor := Some 2\<rparr>"

definition example_executeCommand :: "string \<Rightarrow> MonacoEditor \<Rightarrow> MonacoEditor" where
  "example_executeCommand command editor = editor"

text \<open>A \<open>withPath\<close> that joins the root and the path with a slash.\<close>

definition example_withPath :: "string \<Rightarrow> string \<Rightarrow> string" where
  "example_withPath root p = root @ ''/'' @ p"

section \<open>Invariants of the quick file open service\<close>

text \<open>
  The tokens of a list of searches, of suspended handlers or of acceptor calls; what
  holds of the service after any sequence of events; and what holds of a session from
  the moment a later \<open>onType\<close> has cancelled it while its search was unresolved.
\<close>

definition tokens :: "(nat \<times> 'a) list \<Rightarrow> nat set" where
  "tokens xs = fst ` set xs"

definition consistent :: "QuickFileOpenService \<Rightarrow> bool" where
  "consistent this \<longleftrightarrow>
     cancelIndicator this < next_source this
     \<and> (\<forall>t \<in> tokens (finds this).
           t < next_source this \<and> t \<notin> tokens (awaiting this) \<and> t \<notin> tokens (accepted this)
           \<and> (t = cancelIndicator this \<or> t \<in> cancelled this))
     \<and> (\<forall>t \<in> tokens (awaiting this). t < next_source this)
     \<and> (\<forall>t \<in> tokens (accepted this). t < next_source this)
     \<and> (finds this \<noteq> [] \<longrightarrow> wsRoot this \<noteq> None)
     \<and> (wsRoot this \<noteq> None \<longrightarrow> \<not> root_pending this)"

definition superseded :: "nat \<Rightarrow> QuickFileOpenService \<Rightarrow> bool" where
  "superseded n this \<longleftrightarrow>
     n \<in> cancelled this \<and> n \<notin> tokens (awaiting this) \<and> n \<notin> tokens (accepted this)
     \<and> n < next_source this"

section \<open>Properties of the logger server\<close>

lemmas bunyan_levels =
  bunyan_TRACE_def bunyan_DEBUG_def bunyan_INFO_def bunyan_WARN_def bunyan_ERROR_def
  bunyan_FATAL_def

lemma toLogLevel_toBunyanLevel: "toLogLevel (toBunyanLevel (LogLevel_num l)) = LogLevel_num l"
  by (cases l) (simp_all add: toLogLevel_def toBunyanLevel_def bunyan_levels)

lemma toLogLevel_LogLevel_num: "toLogLevel (LogLevel_num l) = LogLevel_num l"
  by (cases l) (simp_all add: toLogLevel_def bunyan_levels)

lemma example_root:
  "loggers example_server ''root'' = Some \<lparr>bname = ''Theia'', blogger = ''root'', blevel = 30\<rparr>"
  by (simp add: example_server_def setClient_def init_def createLogger_def makeLoggerOptions_def
      in_logLevels_def Object_prototype_names_def example_cli_def)

lemma example_client: "client example_server = Some 7"
  by (simp add: example_server_def setClient_def)

lemma setLogLevel_same:
  "loggers this name = Some logger \<Longrightarrow>
   setLogLevel this name (toLogLevel (blevel logger)) = (Resolve (), this, [])"
  by (simp add: setLogLevel_def)

lemma setLogLevel_other:
  "loggers this name = Some logger \<Longrightarrow> logLevel \<noteq> toLogLevel (blevel logger) \<Longrightarrow>
   setLogLevel this name logLevel =
     (Resolve (),
      this\<lparr>loggers := (loggers this)(name \<mapsto> logger\<lparr>blevel := toBunyanLevel logLevel\<rparr>)\<rparr>,
      (case client this of None \<Rightarrow> [] | Some c \<Rightarrow>
         [Client_onLogLevelChanged c
            \<lparr>loggerName = name, oldLogLevel = toLogLevel (blevel logger), newLogLevel = logLevel\<rparr>])
      @ [Watcher_fireLogLevelChanged
            \<lparr>loggerName = name, oldLogLevel = toLogLevel (blevel logger), newLogLevel = logLevel\<rparr>])"
  by (simp add: setLogLevel_def Let_def)

text \<open>
  C1. For a registered logger whose current level is \<open>current\<close> (what \<open>getLogLevel\<close>
  answers), \<open>setLogLevel\<close> with \<open>current\<close> changes nothing and notifies nobody;
  with any other level it resolves after exactly one event, carrying the logger's name,
  \<open>current\<close> as the old level and the requested level as the new one, delivered first
  to the client, if one is registered, and then to the watcher. After a level of the
  enumeration has been set, \<open>getLogLevel\<close> answers that level.
\<close>

theorem setLogLevel_notifies:
  assumes "loggers this name = Some logger"
    and "getLogLevel this name = (Resolve current, this, [])"
  shows "setLogLevel this name current = (Resolve (), this, [])
    \<and> (logLevel \<noteq> current \<longrightarrow>
         fst (setLogLevel this name logLevel) = Resolve ()
       \<and> snd (snd (setLogLevel this name logLevel)) =
           (case client this of
              None \<Rightarrow> []
            | Some c \<Rightarrow>
                [Client_onLogLevelChanged c
                   \<lparr>loggerName = name, oldLogLevel = current, newLogLevel = logLevel\<rparr>])
           @ [Watcher_fireLogLevelChanged
                \<lparr>loggerName = name, oldLogLevel = current, newLogLevel = logLevel\<rparr>])
    \<and> (\<forall>l. fst (getLogLevel (fst (snd (setLogLevel this name (LogLevel_num l)))) name)
            = Resolve (LogLevel_num l))"
proof -
  from assms have cur: "current = toLogLevel (blevel logger)"
    by (simp add: getLogLevel_def)
  have same: "setLogLevel this name current = (Resolve (), this, [])"
    using assms(1) cur by (simp add: setLogLevel_same)
  have other: "logLevel \<noteq> current \<longrightarrow>
         fst (setLogLevel this name logLevel) = Resolve ()
       \<and> snd (snd (setLogLevel this name logLevel)) =
           (case client this of
              None \<Rightarrow> []
            | Some c \<Rightarrow>
                [Client_onLogLevelChanged c
                   \<lparr>loggerName = name, oldLogLevel = current, newLogLevel = logLevel\<rparr>])
           @ [Watcher_fireLogLevelChanged
                \<lparr>loggerName = name, oldLogLevel = current, newLogLevel = logLevel\<rparr>]"
    using assms(1) unfolding cur by (simp add: setLogLevel_other)
  have after: "fst (getLogLevel (fst (snd (setLogLevel this name (LogLevel_num l)))) name)
            = Resolve (LogLevel_num l)" for l
  proof (cases "LogLevel_num l = current")
    case True
    then show ?thesis using same assms(2) by simp
  next
    case False
    then show ?thesis
      using assms(1) cur
      by (simp add: setLogLevel_other getLogLevel_def toLogLevel_toBunyanLevel)
  qed
  from same other after show ?thesis by blast
qed

theorem setLogLevel_notifies_witness:
  "setLogLevel example_server ''root'' 30 = (Resolve (), example_server, [])
   \<and> snd (snd (setLogLevel example_server ''root'' 50)) =
       [Client_onLogLevelChanged 7 \<lparr>loggerName = ''root'', oldLogLevel = 30, newLogLevel = 50\<rparr>,
        Watcher_fireLogLevelChanged \<lparr>loggerName = ''root'', oldLogLevel = 30, newLogLevel = 50\<rparr>]"
proof -
  have g: "getLogLevel example_server ''root'' = (Resolve 30, example_server, [])"
    by (simp add: getLogLevel_def example_root toLogLevel_def bunyan_levels)
  show ?thesis
    using setLogLevel_notifies [OF example_root g, of 50] example_client by simp
qed

text \<open>
  C2. For a name that is not in the registry, \<open>getLogLevel\<close>, \<open>setLogLevel\<close> and
  \<open>log\<close> each throw the error that names the missing logger, before any promise is
  made; the server is unchanged and nothing is notified or logged.
\<close>

theorem unknown_logger_throws:
  assumes "loggers this name = None"
  shows "getLogLevel this name = (Throw (No_logger_named name), this, [])
    \<and> setLogLevel this name logLevel = (Throw (No_logger_named name), this, [])
    \<and> log this name logLevel msg params = (Throw (No_logger_named name), this, [])"
  using assms by (simp add: getLogLevel_def setLogLevel_def log_def)

lemma example_nope: "loggers example_server ''nope'' = None"
  by (simp add: example_server_def setClient_def init_def)

theorem unknown_logger_throws_witness:
  "getLogLevel example_server ''nope'' = (Throw (No_logger_named ''nope''), example_server, [])
   \<and> setLogLevel example_server ''nope'' 20 = (Throw (No_logger_named ''nope''), example_server, [])
   \<and> log example_server ''nope'' 20 ''msg'' [] = (Throw (No_logger_named ''nope''), example_server, [])"
  using unknown_logger_throws [OF example_nope, of 20 "''msg''" "[]"] by simp

text \<open>
  C7. For a registered logger, \<open>log\<close> calls the logging method of the given level
  when the level is one of the six of the enumeration, and the method \<open>info\<close> for
  every other number, with the message and the parameters it was given.
\<close>

theorem log_severity:
  assumes "loggers this name = Some logger"
  shows "log this name (LogLevel_num TRACE) msg params =
           (Resolve (), this, [Logger_call logger Trace msg params])
    \<and> log this name (LogLevel_num DEBUG) msg params =
           (Resolve (), this, [Logger_call logger Debug msg params])
    \<and> log this name (LogLevel_num INFO) msg params =
           (Resolve (), this, [Logger_call logger Info msg params])
    \<and> log this name (LogLevel_num WARN) msg params =
           (Resolve (), this, [Logger_call logger Warn msg params])
    \<and> log this name (LogLevel_num ERROR) msg params =
           (Resolve (), this, [Logger_call logger Error msg params])
    \<and> log this name (LogLevel_num FATAL) msg params =
           (Resolve (), this, [Logger_call logger Fatal msg params])
    \<and> (logLevel \<notin> range LogLevel_num \<longrightarrow>
         log this name logLevel msg params =
           (Resolve (), this, [Logger_call logger Info msg params]))"
proof -
  have out: "log this name logLevel msg params =
           (Resolve (), this, [Logger_call logger Info msg params])"
    if "logLevel \<notin> range LogLevel_num"
  proof -
    from that have "logLevel \<noteq> LogLevel_num l" for l by blast
    from this [of TRACE] this [of DEBUG] this [of INFO] this [of WARN] this [of ERROR]
      this [of FATAL]
    show ?thesis using assms by (simp add: log_def)
  qed
  show ?thesis using assms out by (simp add: log_def)
qed

theorem log_severity_witness:
  "log example_server ''root'' 40 ''m'' [JNum 1] =
     (Resolve (), example_server,
      [Logger_call \<lparr>bname = ''Theia'', blogger = ''root'', blevel = 30\<rparr> Warn ''m'' [JNum 1]])
   \<and> log example_server ''root'' 35 ''m'' [JNum 1] =
     (Resolve (), example_server,
      [Logger_call \<lparr>bname = ''Theia'', blogger = ''root'', blevel = 30\<rparr> Info ''m'' [JNum 1]])"
proof -
  have "(35::int) \<notin> range LogLevel_num"
  proof
    assume "(35::int) \<in> range LogLevel_num"
    then obtain l where "LogLevel_num l = 35" by auto
    then show False by (cases l) simp_all
  qed
  then show ?thesis
    using log_severity [OF example_root, of "''m''" "[JNum 1]" 35] by simp
qed

text \<open>
  C8. \<open>child\<close> with the empty name rejects, and \<open>child\<close> with a name that is
  already registered resolves; in both cases the server, its registry included, is
  unchanged.
\<close>

theorem child_empty_or_existing:
  "child rootLoggerName this [] = (Reject Empty_name, this, [])
   \<and> (name \<noteq> [] \<and> loggers this name = Some logger \<longrightarrow>
        child rootLoggerName this name = (Resolve (), this, []))"
  by (simp add: child_def)

theorem child_empty_or_existing_witness:
  "child ''root'' example_server [] = (Reject Empty_name, example_server, [])
   \<and> child ''root'' example_server ''root'' = (Resolve (), example_server, [])"
  using child_empty_or_existing [of "''root''" example_server "''root''"] example_root
  by simp

lemma child_creates:
  assumes "loggers this name = None" and "fst (child rootLoggerName this name) = Resolve ()"
  shows "\<exists>rootLogger. loggers this rootLoggerName = Some rootLogger
     \<and> child rootLoggerName this name =
         (Resolve (),
          this\<lparr>loggers := (loggers this)(name \<mapsto>
                   bunyan_child rootLogger (makeLoggerOptions (cli this) name))\<rparr>, [])"
  using assms by (auto simp: child_def Let_def split: if_splits option.splits)

lemma makeLoggerOptions_level:
  assumes "logLevels c name \<noteq> None \<or> name \<notin> set Object_prototype_names"
  shows "toLogLevel (opt_level (makeLoggerOptions c name)) =
     (case logLevels c name of
        Some level \<Rightarrow> LogLevel_num level
      | None \<Rightarrow> LogLevel_num (defaultLogLevel c))"
  using assms
  by (auto simp: makeLoggerOptions_def in_logLevels_def Let_def toLogLevel_toBunyanLevel
      toLogLevel_LogLevel_num split: option.splits)

lemma child_registered:
  "loggers this name \<noteq> None \<Longrightarrow> fst (child rootLoggerName this name) = Resolve () \<Longrightarrow>
   child rootLoggerName this name = (Resolve (), this, [])"
  by (auto simp: child_def split: if_splits)

text \<open>
  C6, as amended. After \<open>child\<close> has succeeded for a name: when the name was not yet
  in the registry, and is a key of the startup mapping or is none of the names the
  mapping object inherits, \<open>getLogLevel\<close> answers the level the mapping gives the
  name, and the default level when the mapping has none; when the name was already in
  the registry, \<open>child\<close> has changed nothing and \<open>getLogLevel\<close> answers what it
  answered before the call.
\<close>

theorem child_configured_level:
  assumes "fst (child rootLoggerName this name) = Resolve ()"
  shows "(loggers this name = None
          \<and> (logLevels (cli this) name \<noteq> None \<or> name \<notin> set Object_prototype_names) \<longrightarrow>
            fst (getLogLevel (fst (snd (child rootLoggerName this name))) name) =
              Resolve (case logLevels (cli this) name of
                         Some level \<Rightarrow> LogLevel_num level
                       | None \<Rightarrow> LogLevel_num (defaultLogLevel (cli this))))
     \<and> (loggers this name \<noteq> None \<longrightarrow>
            child rootLoggerName this name = (Resolve (), this, [])
            \<and> getLogLevel (fst (snd (child rootLoggerName this name))) name =
                getLogLevel this name)"
proof (intro conjI impI)
  assume fresh: "loggers this name = None
          \<and> (logLevels (cli this) name \<noteq> None \<or> name \<notin> set Object_prototype_names)"
  then have none: "loggers this name = None"
    and key: "logLevels (cli this) name \<noteq> None \<or> name \<notin> set Object_prototype_names"
    by simp_all
  from child_creates [OF none assms] obtain rootLogger where
    c: "child rootLoggerName this name =
         (Resolve (),
          this\<lparr>loggers := (loggers this)(name \<mapsto>
                   bunyan_child rootLogger (makeLoggerOptions (cli this) name))\<rparr>, [])"
    by blast
  show "fst (getLogLevel (fst (snd (child rootLoggerName this name))) name) =
              Resolve (case logLevels (cli this) name of
                         Some level \<Rightarrow> LogLevel_num level
                       | None \<Rightarrow> LogLevel_num (defaultLogLevel (cli this)))"
    unfolding c using makeLoggerOptions_level [OF key]
    by (simp add: getLogLevel_def bunyan_child_def)
next
  assume reg: "loggers this name \<noteq> None"
  show "child rootLoggerName this name = (Resolve (), this, [])"
    by (rule child_registered [OF reg assms])
next
  assume reg: "loggers this name \<noteq> None"
  show "getLogLevel (fst (snd (child rootLoggerName this name))) name = getLogLevel this name"
    by (simp add: child_registered [OF reg assms])
qed

lemma example_cli_server: "cli example_server = example_cli"
  by (simp add: example_server_def setClient_def init_def)

theorem child_configured_level_witness:
  "fst (getLogLevel (fst (snd (child ''root'' example_server ''hello''))) ''hello'') = Resolve 20
   \<and> fst (getLogLevel (fst (snd (child ''root'' example_server ''other''))) ''other'') = Resolve 30
   \<and> fst (getLogLevel (fst (snd (child ''root'' example_server_constructor ''constructor'')))
            ''constructor'') = Resolve 60
   \<and> child ''root'' example_server_hello ''hello'' = (Resolve (), example_server_hello, [])
   \<and> getLogLevel (fst (snd (child ''root'' example_server_hello ''hello''))) ''hello'' =
       getLogLevel example_server_hello ''hello''"
proof -
  have n1: "loggers example_server ''hello'' = None" and n2: "loggers example_server ''other'' = None"
    by (simp_all add: example_server_def setClient_def init_def)
  have r1: "fst (child ''root'' example_server ''hello'') = Resolve ()"
    and r2: "fst (child ''root'' example_server ''other'') = Resolve ()"
    using example_root n1 n2 by (simp_all add: child_def Let_def)
  have k1: "logLevels (cli example_server) ''hello'' = Some DEBUG"
    and k2: "logLevels (cli example_server) ''other'' = None"
    by (simp_all add: example_cli_server example_cli_def)
  have p2: "''other'' \<notin> set Object_prototype_names"
    by (simp add: Object_prototype_names_def)
  have n3: "loggers example_server_constructor ''constructor'' = None"
    and k3: "logLevels (cli example_server_constructor) ''constructor'' = Some FATAL"
    and r3: "fst (child ''root'' example_server_constructor ''constructor'') = Resolve ()"
    by (simp_all add: example_server_constructor_def init_def child_def Let_def)
  have n4: "loggers example_server_hello ''hello'' \<noteq> None"
    and r4: "fst (child ''root'' example_server_hello ''hello'') = Resolve ()"
    using example_root n1
    by (simp_all add: example_server_hello_def child_def Let_def setLogLevel_def
        split: option.splits)
  from child_configured_level [OF r1] n1 k1
  have a: "fst (getLogLevel (fst (snd (child ''root'' example_server ''hello''))) ''hello'') =
      Resolve 20"
    by simp
  from child_configured_level [OF r2] n2 k2 p2
  have b: "fst (getLogLevel (fst (snd (child ''root'' example_server ''other''))) ''other'') =
      Resolve 30"
    by (simp add: example_cli_server example_cli_def)
  from child_configured_level [OF r3] n3 k3
  have c: "fst (getLogLevel (fst (snd (child ''root'' example_server_constructor ''constructor'')))
            ''constructor'') = Resolve 60"
    by simp
  from child_configured_level [OF r4] n4
  have d: "child ''root'' example_server_hello ''hello'' = (Resolve (), example_server_hello, [])
   \<and> getLogLevel (fst (snd (child ''root'' example_server_hello ''hello''))) ''hello'' =
       getLogLevel example_server_hello ''hello''"
    by blast
  from a b c d show ?thesis by blast
qed

text \<open>
  C6 as stated fails: a logger that is already registered keeps the level it has. After
  \<open>setLogLevel\<close> has moved the logger \<open>hello\<close> (configured at DEBUG) to ERROR,
  \<open>child\<close> succeeds for that name and \<open>getLogLevel\<close> answers ERROR.
\<close>

theorem child_configured_level_counterexample:
  "fst (child ''root'' example_server_hello ''hello'') = Resolve ()
   \<and> logLevels (cli example_server_hello) ''hello'' = Some DEBUG
   \<and> fst (getLogLevel (fst (snd (child ''root'' example_server_hello ''hello''))) ''hello'')
       = Resolve (LogLevel_num ERROR)
   \<and> LogLevel_num ERROR \<noteq> LogLevel_num DEBUG"
  by (simp add: example_server_hello_def child_def Let_def example_server_def setClient_def
      init_def setLogLevel_def getLogLevel_def makeLoggerOptions_def in_logLevels_def
      Object_prototype_names_def example_cli_def createLogger_def bunyan_child_def
      toLogLevel_def toBunyanLevel_def bunyan_levels)

text \<open>
  Under a name that every object inherits, \<open>makeLoggerOptions\<close> takes the branch of the
  mapping although the mapping has no such logger: with DEBUG as the default level, the
  logger \<open>toString\<close> is created at INFO.
\<close>

lemma child_inherited_name:
  "fst (getLogLevel
     (fst (snd (child ''root''
        (init ''root'' \<lparr>logLevels = Map.empty, defaultLogLevel = DEBUG\<rparr>) ''toString'')))
     ''toString'') = Resolve (LogLevel_num INFO)"
  by (simp add: child_def init_def Let_def makeLoggerOptions_def in_logLevels_def
      Object_prototype_names_def getLogLevel_def bunyan_child_def toLogLevel_def bunyan_levels)

section \<open>Properties of the command line contribution\<close>

lemma read_loggers_ok:
  "\<forall>v \<in> snd ` set entries. F v \<noteq> None \<Longrightarrow>
   \<exists>this'. read_loggers F f entries this = Inr this'
      \<and> defaultLogLevel this' = defaultLogLevel this"
proof (induction entries arbitrary: this)
  case Nil
  then show ?case by simp
next
  case (Cons e entries)
  obtain logger v where e: "e = (logger, v)" by (cases e)
  from Cons.prems e obtain level where lv: "F v = Some level" by auto
  from Cons.prems have rest: "\<forall>v \<in> snd ` set entries. F v \<noteq> None" by simp
  from Cons.IH [OF rest, of "this\<lparr>logLevels := logLevels_set (logLevels this) logger level\<rparr>"]
  show ?case by (simp add: e readLogLevelString_def lv)
qed

lemma read_loggers_bad:
  "\<exists>v \<in> snd ` set entries. F v = None \<Longrightarrow>
   \<exists>logger v. (logger, v) \<in> set entries \<and> F v = None
      \<and> read_loggers F f entries this =
          Inl (Unknown_level (''Unknown log level for logger '' @ logger @ '' in '' @ f) v)"
proof (induction entries arbitrary: this)
  case Nil
  then show ?case by simp
next
  case (Cons e entries)
  obtain logger v where e: "e = (logger, v)" by (cases e)
  show ?case
  proof (cases "F v")
    case None
    then have "read_loggers F f (e # entries) this =
          Inl (Unknown_level (''Unknown log level for logger '' @ logger @ '' in '' @ f) v)"
      by (simp add: e readLogLevelString_def)
    with None e show ?thesis by auto
  next
    case (Some level)
    with Cons.prems e have "\<exists>v \<in> snd ` set entries. F v = None" by auto
    from Cons.IH [OF this, of "this\<lparr>logLevels := logLevels_set (logLevels this) logger level\<rparr>"]
    obtain logger' v' where "(logger', v') \<in> set entries" "F v' = None"
      "read_loggers F f entries (this\<lparr>logLevels := logLevels_set (logLevels this) logger level\<rparr>) =
          Inl (Unknown_level (''Unknown log level for logger '' @ logger' @ '' in '' @ f) v')"
      by blast
    then show ?thesis
      using Some e by (auto simp: readLogLevelString_def)
  qed
qed

lemma js_in_obj: "js_in key (JObj kvs) = Inr (map_of kvs key \<noteq> None)"
  by (simp add: map_of_eq_None_iff)

lemma setArguments_both:
  "log_level args = Some s \<Longrightarrow> log_levels_file args = Some f \<Longrightarrow>
   setArguments F R P args this = Inl Mutually_exclusive"
  by (simp add: setArguments_def)

lemma setArguments_neither:
  "log_level args = None \<Longrightarrow> log_levels_file args = None \<Longrightarrow>
   setArguments F R P args this = Inr this"
  by (simp add: setArguments_def)

lemma setArguments_level:
  "log_level args = Some s \<Longrightarrow> log_levels_file args = None \<Longrightarrow>
   setArguments F R P args this =
     (case F (JStr s) of
        Some level \<Rightarrow> Inr (this\<lparr>defaultLogLevel := level\<rparr>)
      | None \<Rightarrow> Inl (Unknown_level ''Unknown log level passed to --log-level'' (JStr s)))"
  by (simp add: setArguments_def readLogLevelString_def split: option.splits)

lemma setArguments_file:
  "log_level args = None \<Longrightarrow> log_levels_file args = Some f \<Longrightarrow>
   setArguments F R P args this =
     (case read_levels_file F R P f this of
        Inl e \<Rightarrow> Inl (Error_reading_file f e)
      | Inr this' \<Rightarrow> Inr this')"
  by (simp add: setArguments_def)

lemma read_levels_file_unreadable:
  "R f = Inl m \<Longrightarrow> read_levels_file F R P f this = Inl (Thrown m)"
  by (simp add: read_levels_file_def)

lemma read_levels_file_unparsable:
  "R f = Inr content \<Longrightarrow> P content = Inl m \<Longrightarrow> read_levels_file F R P f this = Inl (Thrown m)"
  by (simp add: read_levels_file_def)

lemma read_levels_file_bad_default:
  "R f = Inr content \<Longrightarrow> P content = Inr (JObj kvs) \<Longrightarrow> map_of kvs ''default'' = Some v \<Longrightarrow>
   F v = None \<Longrightarrow>
   read_levels_file F R P f this = Inl (Unknown_level (''Unknown default log level in '' @ f) v)"
  by (simp add: read_levels_file_def js_in_obj readLogLevelString_def del: js_in.simps)

lemma read_levels_file_bad_logger:
  assumes "R f = Inr content" and "P content = Inr (JObj kvs)"
    and "\<forall>v. map_of kvs ''default'' = Some v \<longrightarrow> F v \<noteq> None"
    and "map_of kvs ''loggers'' = Some (JObj lvs)"
    and "\<exists>v \<in> snd ` set lvs. F v = None"
  shows "\<exists>logger v. (logger, v) \<in> set lvs \<and> F v = None
      \<and> read_levels_file F R P f this =
          Inl (Unknown_level (''Unknown log level for logger '' @ logger @ '' in '' @ f) v)"
proof (cases "map_of kvs ''default''")
  case None
  from read_loggers_bad [OF assms(5), of f this] show ?thesis
    using assms(1,2,4) None
    by (simp add: read_levels_file_def js_in_obj del: js_in.simps)
next
  case (Some d)
  with assms(3) obtain level where lv: "F d = Some level" by auto
  from read_loggers_bad [OF assms(5), of f "this\<lparr>defaultLogLevel := level\<rparr>"] show ?thesis
    using assms(1,2,4) Some lv
    by (simp add: read_levels_file_def js_in_obj readLogLevelString_def del: js_in.simps)
qed

lemma read_levels_file_ok:
  assumes "R f = Inr content" and "P content = Inr (JObj kvs)"
    and "\<forall>v. map_of kvs ''default'' = Some v \<longrightarrow> F v \<noteq> None"
    and "map_of kvs ''loggers'' = None
         \<or> (\<exists>lvs. map_of kvs ''loggers'' = Some (JObj lvs) \<and> (\<forall>v \<in> snd ` set lvs. F v \<noteq> None))"
  shows "\<exists>this'. read_levels_file F R P f this = Inr this'
      \<and> defaultLogLevel this' =
          (case map_of kvs ''default'' of
             None \<Rightarrow> defaultLogLevel this
           | Some v \<Rightarrow> the (F v))"
proof -
  define this1 where "this1 =
     (case map_of kvs ''default'' of None \<Rightarrow> this | Some v \<Rightarrow> this\<lparr>defaultLogLevel := the (F v)\<rparr>)"
  have d1: "defaultLogLevel this1 =
          (case map_of kvs ''default'' of
             None \<Rightarrow> defaultLogLevel this
           | Some v \<Rightarrow> the (F v))"
    by (simp add: this1_def split: option.splits)
  have step1: "read_levels_file F R P f this =
     (case js_in ''loggers'' (JObj kvs) of
        Inl e \<Rightarrow> Inl e
      | Inr has_loggers \<Rightarrow>
          if has_loggers
          then (case Object_entries (js_get (JObj kvs) ''loggers'') of
                  Inl e \<Rightarrow> Inl e
                | Inr entries \<Rightarrow> read_loggers F f entries this1)
          else Inr this1)"
    using assms(1,2,3)
    by (auto simp: read_levels_file_def js_in_obj readLogLevelString_def this1_def
        simp del: js_in.simps split: option.splits sum.splits)
  from assms(4) show ?thesis
  proof
    assume "map_of kvs ''loggers'' = None"
    then show ?thesis using step1 d1 by (simp add: js_in_obj del: js_in.simps)
  next
    assume "\<exists>lvs. map_of kvs ''loggers'' = Some (JObj lvs) \<and> (\<forall>v \<in> snd ` set lvs. F v \<noteq> None)"
    then obtain lvs where l: "map_of kvs ''loggers'' = Some (JObj lvs)"
      and ok: "\<forall>v \<in> snd ` set lvs. F v \<noteq> None" by blast
    from read_loggers_ok [OF ok, of f this1] obtain this' where
      "read_loggers F f lvs this1 = Inr this'" "defaultLogLevel this' = defaultLogLevel this1"
      by blast
    then show ?thesis using step1 d1 l by (simp add: js_in_obj del: js_in.simps)
  qed
qed


text \<open>
  C5. With both options \<open>setArguments\<close> throws the error of mutual exclusion. With
  neither it returns the contribution as it is, whose default level is INFO from the
  start. With \<open>--log-level\<close> alone it sets the default level when the string names a
  level and throws otherwise. With \<open>--log-levels-file\<close> alone it succeeds for a
  readable file holding an object whose \<open>default\<close> and \<open>loggers\<close> name levels, and
  throws, with the name of the file and the cause, when the file cannot be read, when
  it is not JSON, when \<open>default\<close> names no level and when some logger's value names no
  level.
\<close>

theorem setArguments_startup:
  "(log_level args = Some s \<and> log_levels_file args = Some f \<longrightarrow>
      setArguments F R P args this = Inl Mutually_exclusive)
   \<and> (log_level args = None \<and> log_levels_file args = None \<longrightarrow>
      setArguments F R P args this = Inr this)
   \<and> defaultLogLevel new_LogLevelCliContribution = INFO
   \<and> (log_level args = Some s \<and> log_levels_file args = None \<and> F (JStr s) = Some level \<longrightarrow>
      setArguments F R P args this = Inr (this\<lparr>defaultLogLevel := level\<rparr>))
   \<and> (log_level args = Some s \<and> log_levels_file args = None \<and> F (JStr s) = None \<longrightarrow>
      setArguments F R P args this =
        Inl (Unknown_level ''Unknown log level passed to --log-level'' (JStr s)))
   \<and> (log_level args = None \<and> log_levels_file args = Some f \<and> R f = Inl m \<longrightarrow>
      setArguments F R P args this = Inl (Error_reading_file f (Thrown m)))
   \<and> (log_level args = None \<and> log_levels_file args = Some f \<and> R f = Inr content
       \<and> P content = Inl m \<longrightarrow>
      setArguments F R P args this = Inl (Error_reading_file f (Thrown m)))
   \<and> (log_level args = None \<and> log_levels_file args = Some f \<and> R f = Inr content
       \<and> P content = Inr (JObj kvs)
       \<and> (\<forall>v. map_of kvs ''default'' = Some v \<longrightarrow> F v \<noteq> None)
       \<and> (map_of kvs ''loggers'' = None
          \<or> (\<exists>lvs. map_of kvs ''loggers'' = Some (JObj lvs)
                \<and> (\<forall>v \<in> snd ` set lvs. F v \<noteq> None))) \<longrightarrow>
      (\<exists>this'. setArguments F R P args this = Inr this'
         \<and> defaultLogLevel this' =
             (case map_of kvs ''default'' of
                None \<Rightarrow> defaultLogLevel this
              | Some v \<Rightarrow> the (F v))))
   \<and> (log_level args = None \<and> log_levels_file args = Some f \<and> R f = Inr content
       \<and> P content = Inr (JObj kvs) \<and> map_of kvs ''default'' = Some d \<and> F d = None \<longrightarrow>
      setArguments F R P args this =
        Inl (Error_reading_file f (Unknown_level (''Unknown default log level in '' @ f) d)))
   \<and> (log_level args = None \<and> log_levels_file args = Some f \<and> R f = Inr content
       \<and> P content = Inr (JObj kvs)
       \<and> (\<forall>v. map_of kvs ''default'' = Some v \<longrightarrow> F v \<noteq> None)
       \<and> map_of kvs ''loggers'' = Some (JObj lvs)
       \<and> (\<exists>v \<in> snd ` set lvs. F v = None) \<longrightarrow>
      (\<exists>logger v. (logger, v) \<in> set lvs \<and> F v = None
         \<and> setArguments F R P args this =
            Inl (Error_reading_file f
                   (Unknown_level (''Unknown log level for logger '' @ logger @ '' in '' @ f) v))))"
proof -
  have ok: "\<exists>this'. setArguments F R P args this = Inr this'
         \<and> defaultLogLevel this' =
             (case map_of kvs ''default'' of
                None \<Rightarrow> defaultLogLevel this
              | Some v \<Rightarrow> the (F v))"
    if "log_level args = None" "log_levels_file args = Some f" "R f = Inr content"
       "P content = Inr (JObj kvs)"
       "\<forall>v. map_of kvs ''default'' = Some v \<longrightarrow> F v \<noteq> None"
       "map_of kvs ''loggers'' = None
          \<or> (\<exists>lvs. map_of kvs ''loggers'' = Some (JObj lvs)
                \<and> (\<forall>v \<in> snd ` set lvs. F v \<noteq> None))"
    using read_levels_file_ok
        [where R = R and P = P and F = F and f = f and content = content and kvs = kvs
          and this = this] that
    by (auto simp: setArguments_file)
  have bad: "\<exists>logger v. (logger, v) \<in> set lvs \<and> F v = None
         \<and> setArguments F R P args this =
            Inl (Error_reading_file f
                   (Unknown_level (''Unknown log level for logger '' @ logger @ '' in '' @ f) v))"
    if "log_level args = None" "log_levels_file args = Some f" "R f = Inr content"
       "P content = Inr (JObj kvs)"
       "\<forall>v. map_of kvs ''default'' = Some v \<longrightarrow> F v \<noteq> None"
       "map_of kvs ''loggers'' = Some (JObj lvs)"
       "\<exists>v \<in> snd ` set lvs. F v = None"
    using read_levels_file_bad_logger
        [where R = R and P = P and F = F and f = f and content = content and kvs = kvs
          and lvs = lvs and this = this] that
    by (auto simp: setArguments_file)
  show ?thesis
    apply (intro conjI impI)
    subgoal by (simp add: setArguments_both)
    subgoal by (simp add: setArguments_neither)
    subgoal by (simp add: new_LogLevelCliContribution_def)
    subgoal by (simp add: setArguments_level)
    subgoal by (simp add: setArguments_level)
    subgoal by (simp add: setArguments_file read_levels_file_unreadable)
    subgoal by (simp add: setArguments_file read_levels_file_unparsable)
    subgoal by (elim conjE) (rule ok; assumption)
    subgoal by (simp add: setArguments_file read_levels_file_bad_default)
    subgoal by (elim conjE) (rule bad; assumption)
    done
qed

theorem setArguments_startup_witness:
  "setArguments example_fromString example_readFileSync example_JSON_parse
     \<lparr>log_level = Some ''debug'', log_levels_file = Some ''/tmp/levels.json''\<rparr>
     new_LogLevelCliContribution = Inl Mutually_exclusive
   \<and> setArguments example_fromString example_readFileSync example_JSON_parse
     \<lparr>log_level = None, log_levels_file = None\<rparr>
     new_LogLevelCliContribution = Inr new_LogLevelCliContribution
   \<and> setArguments example_fromString example_readFileSync example_JSON_parse
     \<lparr>log_level = Some ''debug'', log_levels_file = None\<rparr>
     new_LogLevelCliContribution = Inr (new_LogLevelCliContribution\<lparr>defaultLogLevel := DEBUG\<rparr>)
   \<and> setArguments example_fromString example_readFileSync example_JSON_parse
     \<lparr>log_level = Some ''potato'', log_levels_file = None\<rparr>
     new_LogLevelCliContribution =
       Inl (Unknown_level ''Unknown log level passed to --log-level'' (JStr ''potato''))
   \<and> setArguments example_fromString example_readFileSync example_JSON_parse
     \<lparr>log_level = None, log_levels_file = Some ''/patch/doesnt/exist''\<rparr>
     new_LogLevelCliContribution =
       Inl (Error_reading_file ''/patch/doesnt/exist'' (Thrown ''ENOENT: no such file or directory''))
   \<and> setArguments example_fromString example_readFileSync example_JSON_parse
     \<lparr>log_level = None, log_levels_file = Some ''/tmp/broken.json''\<rparr>
     new_LogLevelCliContribution =
       Inl (Error_reading_file ''/tmp/broken.json''
              (Thrown ''Unexpected token { in JSON at position 1''))
   \<and> (\<exists>this'. setArguments example_fromString example_readFileSync example_JSON_parse
     \<lparr>log_level = None, log_levels_file = Some ''/tmp/levels.json''\<rparr>
     new_LogLevelCliContribution = Inr this' \<and> defaultLogLevel this' = INFO)"
proof -
  let ?F = example_fromString and ?R = example_readFileSync and ?P = example_JSON_parse
  let ?kvs = "[(''default'', JStr ''info''),
               (''loggers'', JObj [(''hello'', JStr ''debug''), (''world'', JStr ''fatal'')])]"
  note t = setArguments_startup [where F = ?F and R = ?R and P = ?P
      and this = new_LogLevelCliContribution]
  have 1: "setArguments ?F ?R ?P
     \<lparr>log_level = Some ''debug'', log_levels_file = Some ''/tmp/levels.json''\<rparr>
     new_LogLevelCliContribution = Inl Mutually_exclusive"
    using t [where args = "\<lparr>log_level = Some ''debug'', log_levels_file = Some ''/tmp/levels.json''\<rparr>"
        and s = "''debug''" and f = "''/tmp/levels.json''"]
    by simp
  have 2: "setArguments ?F ?R ?P \<lparr>log_level = None, log_levels_file = None\<rparr>
     new_LogLevelCliContribution = Inr new_LogLevelCliContribution"
    using t [where args = "\<lparr>log_level = None, log_levels_file = None\<rparr>"]
    by simp
  have 3: "setArguments ?F ?R ?P \<lparr>log_level = Some ''debug'', log_levels_file = None\<rparr>
     new_LogLevelCliContribution = Inr (new_LogLevelCliContribution\<lparr>defaultLogLevel := DEBUG\<rparr>)"
    using t [where args = "\<lparr>log_level = Some ''debug'', log_levels_file = None\<rparr>"
        and s = "''debug''" and level = DEBUG]
    by (simp add: example_fromString_def)
  have 4: "setArguments ?F ?R ?P \<lparr>log_level = Some ''potato'', log_levels_file = None\<rparr>
     new_LogLevelCliContribution =
       Inl (Unknown_level ''Unknown log level passed to --log-level'' (JStr ''potato''))"
    using t [where args = "\<lparr>log_level = Some ''potato'', log_levels_file = None\<rparr>"
        and s = "''potato''"]
    by (simp add: example_fromString_def)
  have 5: "setArguments ?F ?R ?P
     \<lparr>log_level = None, log_levels_file = Some ''/patch/doesnt/exist''\<rparr>
     new_LogLevelCliContribution =
       Inl (Error_reading_file ''/patch/doesnt/exist'' (Thrown ''ENOENT: no such file or directory''))"
    using t [where args = "\<lparr>log_level = None, log_levels_file = Some ''/patch/doesnt/exist''\<rparr>"
        and f = "''/patch/doesnt/exist''" and m = "''ENOENT: no such file or directory''"]
    by (simp add: example_readFileSync_def)
  have 6: "setArguments ?F ?R ?P
     \<lparr>log_level = None, log_levels_file = Some ''/tmp/broken.json''\<rparr>
     new_LogLevelCliContribution =
       Inl (Error_reading_file ''/tmp/broken.json''
              (Thrown ''Unexpected token { in JSON at position 1''))"
    using t [where args = "\<lparr>log_level = None, log_levels_file = Some ''/tmp/broken.json''\<rparr>"
        and f = "''/tmp/broken.json''" and m = "''Unexpected token { in JSON at position 1''"
        and content = "''{levels''"]
    by (simp add: example_readFileSync_def example_JSON_parse_def)
  have 7: "\<exists>this'. setArguments ?F ?R ?P
     \<lparr>log_level = None, log_levels_file = Some ''/tmp/levels.json''\<rparr>
     new_LogLevelCliContribution = Inr this' \<and> defaultLogLevel this' = INFO"
    using t [where args = "\<lparr>log_level = None, log_levels_file = Some ''/tmp/levels.json''\<rparr>"
        and f = "''/tmp/levels.json''" and content = "''levels''" and kvs = ?kvs]
    by (simp add: example_readFileSync_def example_JSON_parse_def example_fromString_def)
  from 1 2 3 4 5 6 7 show ?thesis by blast
qed

section \<open>Properties of the document watcher\<close>

lemmas ensure_defs =
  ensureIndentStyle_def ensureIndentSize_def ensureTabWidth_def ensureEndOfLine_def
  ensureTrimTrailingWhitespace_def ensureEndsWithNewLine_def

lemma isSet_unset: "isSet (JStr ''unset'') = False"
  by (simp add: isSet_def)

lemma isSet_undefined: "isSet JUndefined = False"
  by (simp add: isSet_def)

lemma isSet_false: "isSet (JBool False) = False"
  by (simp add: isSet_def)

lemmas isSet_simps = isSet_unset isSet_undefined isSet_false
















lemma save_mutation_needs_set:
  "onWillSaveModel exec this ed = Inr ms \<Longrightarrow> configurations this (uri_path ed) = Some p \<Longrightarrow>
   ExecuteCommand c \<in> set ms \<Longrightarrow> isSet (trim_trailing_whitespace p)"
  "onWillSaveModel exec this ed = Inr ms \<Longrightarrow> configurations this (uri_path ed) = Some p \<Longrightarrow>
   ApplyEdits es \<in> set ms \<Longrightarrow> isSet (insert_final_newline p)"
  by (auto simp: onWillSaveModel_def ensure_defs isSet_simps Let_def split: js.splits if_splits)



lemma trimRight_split:
  "\<exists>ws. s = trimRight s @ ws \<and> (\<forall>c \<in> set ws. is_white_space c)"
proof -
  have "rev (takeWhile is_white_space (rev s) @ dropWhile is_white_space (rev s)) = s"
    by (simp only: takeWhile_dropWhile_id rev_rev_ident)
  then have "s = trimRight s @ rev (takeWhile is_white_space (rev s))"
    by (simp only: rev_append trimRight_def)
  moreover have "\<forall>c \<in> set (rev (takeWhile is_white_space (rev s))). is_white_space c"
    by (auto dest: set_takeWhileD)
  ultimately show ?thesis by blast
qed

lemma trimRight_last:
  "trimRight s \<noteq> [] \<Longrightarrow> \<not> is_white_space (last (trimRight s))"
  by (simp add: trimRight_def last_rev hd_dropWhile)

lemma getLineContent_last:
  "getLineContent ed (lineCount ed) = last (first_line ed # more_lines ed)"
  by (simp add: getLineContent_def lineCount_def last_conv_nth)

text \<open>
  What the save handler does with \<open>insert_final_newline\<close> true. It first issues the
  trimming command, when \<open>trim_trailing_whitespace\<close> is true and the editor is the
  current one. It then takes the last line of the document as the command has left it,
  stripped of its trailing white space when \<open>trim_trailing_whitespace\<close> is true; if
  that text is empty it makes no edit, and otherwise it applies one edit that inserts
  CR LF when \<open>end_of_line\<close> is \<open>crlf\<close> and LF otherwise at the column just after
  that text, and assigns the cursor the position it had before the edit. Only the copy
  of the line is stripped: white space that is still in the document stands behind the
  column of the edit.
\<close>

lemma final_newline_calls:
  assumes "configurations this (uri_path ed) = Some p"
    and "insert_final_newline p = JBool True"
    and "ed' = (if trim_trailing_whitespace p = JBool True \<and> currentEditor this = Some (editor_id ed)
                then exec ''monaco.editor.action.trimTrailingWhitespace'' ed else ed)"
    and "lastLine = last (first_line ed' # more_lines ed')"
    and "content = (if trim_trailing_whitespace p = JBool True then trimRight lastLine else lastLine)"
  shows "onWillSaveModel exec this ed =
     Inr ((if trim_trailing_whitespace p = JBool True \<and> currentEditor this = Some (editor_id ed)
           then [ExecuteCommand ''monaco.editor.action.trimTrailingWhitespace''] else [])
          @ (if content = [] then []
             else [ApplyEdits
                     [\<lparr>forceMoveMarkers = False,
                       edit_range = (Suc (length (more_lines ed')), length content + 1,
                                     Suc (length (more_lines ed')), length content + 1),
                       edit_text = (if end_of_line p = JStr ''crlf'' then [13, 10] else [10])\<rparr>],
                   Assign_cursor (cursor ed')]))
    \<and> (\<exists>ws. lastLine = content @ ws \<and> (\<forall>c \<in> set ws. is_white_space c))
    \<and> (trim_trailing_whitespace p = JBool True \<and> content \<noteq> [] \<longrightarrow>
          \<not> is_white_space (last content))"
proof -
  have isset: "isSet (insert_final_newline p)"
    using assms(2) by (simp add: isSet_def)
  have trim: "(if isSet (trim_trailing_whitespace p)
               then ensureTrimTrailingWhitespace exec this ed p else ([], ed)) =
     ((if trim_trailing_whitespace p = JBool True \<and> currentEditor this = Some (editor_id ed)
       then [ExecuteCommand ''monaco.editor.action.trimTrailingWhitespace''] else []), ed')"
  proof (cases "trim_trailing_whitespace p = JBool True")
    case True
    then show ?thesis
      using assms(3) by (simp add: ensureTrimTrailingWhitespace_def isSet_def)
  next
    case False
    then have "JBool True \<noteq> trim_trailing_whitespace p" by auto
    with False show ?thesis
      using assms(3) by (simp add: ensureTrimTrailingWhitespace_def)
  qed
  have newline: "ensureEndsWithNewLine ed' p =
     (if content = [] then []
      else [ApplyEdits
              [\<lparr>forceMoveMarkers = False,
                edit_range = (Suc (length (more_lines ed')), length content + 1,
                              Suc (length (more_lines ed')), length content + 1),
                edit_text = (if end_of_line p = JStr ''crlf'' then [13, 10] else [10])\<rparr>],
            Assign_cursor (cursor ed')])"
  proof -
    have lc: "lineCount ed' = Suc (length (more_lines ed'))"
      by (simp add: lineCount_def)
    have gl: "getLineContent ed' (Suc (length (more_lines ed'))) = lastLine"
      using getLineContent_last [of ed'] assms(4) by (simp add: lc)
    show ?thesis
      using assms(2,5)
      by (auto simp: ensureEndsWithNewLine_def Let_def lc gl
          LINE_ENDING_CRLF_def LINE_ENDING_LF_def)
  qed
  have run: "onWillSaveModel exec this ed =
     Inr ((if trim_trailing_whitespace p = JBool True \<and> currentEditor this = Some (editor_id ed)
           then [ExecuteCommand ''monaco.editor.action.trimTrailingWhitespace''] else [])
          @ (if content = [] then []
             else [ApplyEdits
                     [\<lparr>forceMoveMarkers = False,
                       edit_range = (Suc (length (more_lines ed')), length content + 1,
                                     Suc (length (more_lines ed')), length content + 1),
                       edit_text = (if end_of_line p = JStr ''crlf'' then [13, 10] else [10])\<rparr>],
                   Assign_cursor (cursor ed')]))"
    unfolding onWillSaveModel_def Let_def using assms(1) isset
    by (simp only: option.case trim newline if_True fst_conv snd_conv)
  have split: "\<exists>ws. lastLine = content @ ws \<and> (\<forall>c \<in> set ws. is_white_space c)"
  proof (cases "trim_trailing_whitespace p = JBool True")
    case True
    then show ?thesis using assms(5) trimRight_split [of lastLine] by simp
  next
    case False
    then show ?thesis using assms(5) by simp
  qed
  have clean: "trim_trailing_whitespace p = JBool True \<and> content \<noteq> [] \<longrightarrow>
          \<not> is_white_space (last content)"
    using assms(5) trimRight_last [of lastLine] by auto
  from run split clean show ?thesis by blast
qed

text \<open>
  C9. The code does not do what the claim says when the editor being saved is not the
  current one. With \<open>trim_trailing_whitespace\<close> and \<open>insert_final_newline\<close> both
  true and a last line that ends in a space and a tab, the handler issues no trimming
  command, whatever the command service would do, and inserts the line ending at
  column 2 of line 3, although that line is three characters long: the white space is
  not trimmed and stays behind the inserted ending, so the ending is not appended and
  the document does not end with it.
\<close>

theorem final_newline_not_appended:
  "onWillSaveModel exec example_watcher_background example_editor =
     Inr [ApplyEdits [\<lparr>forceMoveMarkers = False, edit_range = (3, 2, 3, 2), edit_text = [13, 10]\<rparr>],
          Assign_cursor (1, 2)]
   \<and> configurations example_watcher_background (uri_path example_editor) = Some example_props
   \<and> trim_trailing_whitespace example_props = JBool True
   \<and> insert_final_newline example_props = JBool True
   \<and> getLineContent example_editor (lineCount example_editor) = [125, 32, 9]"
  by (simp add: onWillSaveModel_def ensure_defs Let_def example_props_def example_editor_def
      example_watcher_background_def example_watcher_def isSet_def lineCount_def
      getLineContent_def trimRight_def is_white_space_def LINE_ENDING_CRLF_def
      LINE_ENDING_LF_def)

text \<open>
  When that editor is the current one the command is issued first, and the edit is the
  same if the command has not yet acted on the document when the call returns.
\<close>

lemma final_newline_current_editor:
  "onWillSaveModel example_executeCommand example_watcher example_editor =
     Inr [ExecuteCommand ''monaco.editor.action.trimTrailingWhitespace'',
          ApplyEdits [\<lparr>forceMoveMarkers = False, edit_range = (3, 2, 3, 2), edit_text = [13, 10]\<rparr>],
          Assign_cursor (1, 2)]"
  by (simp add: onWillSaveModel_def ensure_defs Let_def example_props_def example_editor_def
      example_watcher_def example_executeCommand_def isSet_def lineCount_def
      getLineContent_def trimRight_def is_white_space_def LINE_ENDING_CRLF_def
      LINE_ENDING_LF_def)

section \<open>Properties of the quick file open service\<close>

lemma tokens_simps [simp]:
  "tokens [] = {}"
  "tokens (xs @ ys) = tokens xs \<union> tokens ys"
  "tokens ((t, x) # xs) = insert t (tokens xs)"
  by (auto simp: tokens_def)

lemma tokens_filter: "tokens (filter (\<lambda>f. fst f \<noteq> t) xs) = tokens xs - {t}"
  by (auto simp: tokens_def)

lemma map_of_tokens: "map_of xs t = Some x \<Longrightarrow> t \<in> tokens xs"
  by (auto simp: tokens_def dest: map_of_SomeD intro: rev_image_eqI)

lemma consistent_new: "consistent new_QuickFileOpenService"
  by (simp add: consistent_def new_QuickFileOpenService_def)

lemma consistent_step: "consistent this \<Longrightarrow> consistent (step withPath e this)"
proof (cases e)
  case (Root_resolves root)
  assume "consistent this"
  then show ?thesis
    unfolding Root_resolves
    by (cases "finds this") (auto simp: consistent_def step_def)
next
  case (OnType query)
  assume c: "consistent this"
  show ?thesis
  proof (cases "wsRoot this")
    case None
    then show ?thesis using c by (simp add: OnType step_def onType_def)
  next
    case (Some root)
    then show ?thesis
      using c unfolding OnType
      by (auto simp: consistent_def step_def onType_def Let_def)
  qed
next
  case (Find_resolves t result)
  assume c: "consistent this"
  show ?thesis
  proof (cases "map_of (finds this) t")
    case None
    then show ?thesis using c by (simp add: Find_resolves step_def)
  next
    case (Some request)
    from map_of_tokens [OF Some] have t: "t \<in> tokens (finds this)" .
    show ?thesis
      using c t Some unfolding Find_resolves
      by (auto simp: consistent_def step_def handler_def tokens_filter filter_empty_conv)
  qed
next
  case (Items_resolve t)
  assume c: "consistent this"
  show ?thesis
  proof (cases "map_of (awaiting this) t")
    case None
    then show ?thesis using c by (simp add: Items_resolve step_def)
  next
    case (Some uris)
    from map_of_tokens [OF Some] have t: "t \<in> tokens (awaiting this)" .
    show ?thesis
      using c t Some unfolding Items_resolve
      by (auto simp: consistent_def step_def tokens_filter)
  qed
qed

lemma consistent_run: "consistent this \<Longrightarrow> consistent (run withPath es this)"
  unfolding run_def by (induction es arbitrary: this) (simp_all add: consistent_step)

lemma superseded_step: "superseded n this \<Longrightarrow> superseded n (step withPath e this)"
proof (cases e)
  case (Root_resolves root)
  assume "superseded n this"
  then show ?thesis by (simp add: Root_resolves superseded_def step_def)
next
  case (OnType query)
  assume "superseded n this"
  then show ?thesis
    by (auto simp: OnType superseded_def step_def onType_def Let_def split: option.splits)
next
  case (Find_resolves t result)
  assume "superseded n this"
  then show ?thesis
    by (auto simp: Find_resolves superseded_def step_def handler_def split: option.splits)
next
  case (Items_resolve t)
  assume "superseded n this"
  then show ?thesis
    by (auto simp: Items_resolve superseded_def step_def tokens_filter
        dest: map_of_tokens split: option.splits)
qed

lemma superseded_run: "superseded n this \<Longrightarrow> superseded n (run withPath es this)"
  unfolding run_def by (induction es arbitrary: this) (simp_all add: superseded_step)

lemma onType_supersedes:
  assumes "consistent this" and "n \<in> tokens (finds this)"
  shows "superseded n (step withPath (OnType query) this)"
proof -
  from assms have "finds this \<noteq> []" by auto
  with assms(1) obtain root where "wsRoot this = Some root"
    by (auto simp: consistent_def)
  with assms show ?thesis
    by (auto simp: superseded_def consistent_def step_def onType_def Let_def)
qed

text \<open>
  C3. Take the service after any sequence of events, and a session \<open>n\<close> whose search
  has not resolved. Once \<open>onType\<close> is called again, whatever happens afterwards and in
  whatever order, the resolution of the search of \<open>n\<close> included, the acceptor is never
  called for session \<open>n\<close>: its token is cancelled, and the handler reads the token
  when the batch arrives.
\<close>

theorem superseded_never_accepted:
  assumes "n \<in> fst ` set (finds (run withPath history new_QuickFileOpenService))"
  shows "n \<notin> fst ` set (accepted (run withPath future
            (step withPath (OnType query) (run withPath history new_QuickFileOpenService))))
     \<and> n \<in> cancelled (step withPath (OnType query) (run withPath history new_QuickFileOpenService))"
proof -
  let ?w = "run withPath history new_QuickFileOpenService"
  have c: "consistent ?w"
    by (rule consistent_run [OF consistent_new])
  from assms have n: "n \<in> tokens (finds ?w)"
    by (simp add: tokens_def)
  have s: "superseded n (step withPath (OnType query) ?w)"
    by (rule onType_supersedes [OF c n])
  from superseded_run [OF s, of withPath future] s show ?thesis
    by (simp add: superseded_def tokens_def)
qed

lemma example_history:
  "finds (run example_withPath [Root_resolves (Some ''file:///ws''), OnType ''a'']
            new_QuickFileOpenService) =
     [(1, \<lparr>lookFor = ''a'', rootUri = ''file:///ws'', fuzzyMatch = True, limit = 200,
           useGitIgnore = True\<rparr>)]"
  by (simp add: run_def step_def onType_def new_QuickFileOpenService_def Let_def)

theorem superseded_never_accepted_witness:
  "1 \<notin> fst ` set (accepted (run example_withPath
            [Find_resolves 1 [''a.ts''], Items_resolve 1, Find_resolves 2 [''ab.ts''],
             Items_resolve 2]
            (step example_withPath (OnType ''ab'')
               (run example_withPath [Root_resolves (Some ''file:///ws''), OnType ''a'']
                  new_QuickFileOpenService))))
   \<and> accepted (run example_withPath
            [Find_resolves 1 [''a.ts''], Items_resolve 1, Find_resolves 2 [''ab.ts''],
             Items_resolve 2]
            (step example_withPath (OnType ''ab'')
               (run example_withPath [Root_resolves (Some ''file:///ws''), OnType ''a'']
                  new_QuickFileOpenService))) = [(2, [''file:///ws/ab.ts''])]"
proof -
  have h: "1 \<in> fst ` set (finds (run example_withPath
              [Root_resolves (Some ''file:///ws''), OnType ''a''] new_QuickFileOpenService))"
    by (simp add: example_history)
  have a: "accepted (run example_withPath
            [Find_resolves 1 [''a.ts''], Items_resolve 1, Find_resolves 2 [''ab.ts''],
             Items_resolve 2]
            (step example_withPath (OnType ''ab'')
               (run example_withPath [Root_resolves (Some ''file:///ws''), OnType ''a'']
                  new_QuickFileOpenService))) = [(2, [''file:///ws/ab.ts''])]"
    by (simp add: run_def step_def onType_def handler_def new_QuickFileOpenService_def Let_def
        example_withPath_def)
  from superseded_never_accepted [OF h, of "[Find_resolves 1 [''a.ts''], Items_resolve 1,
      Find_resolves 2 [''ab.ts''], Items_resolve 2]" "''ab''"] a
  show ?thesis by blast
qed

text \<open>
  The token is read when the batch arrives, not when the items are ready: a batch that
  arrived before the next \<open>onType\<close> is passed to the acceptor even when its items
  resolve after it.
\<close>

lemma batch_before_cancellation_accepted:
  "accepted (run example_withPath
      [Root_resolves (Some ''file:///ws''), OnType ''a'', Find_resolves 1 [''a.ts''],
       OnType ''ab'', Items_resolve 1]
      new_QuickFileOpenService) = [(1, [''file:///ws/a.ts''])]"
  by (simp add: run_def step_def onType_def handler_def new_QuickFileOpenService_def Let_def
      example_withPath_def)

end
